theory Spec2Isabelle
  imports Main
begin

section \<open>The pooled application logger (logger.go)\<close>

subsection \<open>Data model\<close>

text \<open>
  Run-time failures of the Go code are values: an index out of range, the panic raised
  by \<^verbatim>\<open>log.Panicf\<close> (carrying the sink and the constructor's error), a nil pointer
  dereference, and a failed interface conversion.
\<close>

datatype panic =
    IndexOutOfRange
  | LogPanicf string string
  | NilDereference
  | InterfaceConversion

text \<open>
  The external \<^verbatim>\<open>*logger.Logger\<close> of github.com/dolab/logger is not part of the
  repository. Of it the code uses the constructor \<^verbatim>\<open>logger.New(output)\<close>, the method
  \<^verbatim>\<open>New()\<close> that derives a logger on the same sink, and \<^verbatim>\<open>SetTags\<close>. A logger is
  the sink it was opened on and its tag state.
\<close>

record logger_Logger =
  lg_output :: string
  lg_tags :: "string list"

text \<open>
  A value of interface type (\<^verbatim>\<open>interface{}\<close>, \<^verbatim>\<open>Logger\<close>): the nil interface, a
  \<^verbatim>\<open>*AppLogger\<close> (the pointer itself may be nil), some other implementation of
  \<^verbatim>\<open>Logger\<close>, or a value of a type that does not implement \<^verbatim>\<open>Logger\<close>.
  Pointers are addresses into the heap below; \<open>None\<close> is the nil pointer. An address
  beyond the heap does not arise in a Go program; dereferencing one is treated like nil.
\<close>

datatype iface =
    DNil
  | DAppLogger "nat option"
  | DForeignLogger nat
  | DOther nat

fun implements_Logger :: "iface \<Rightarrow> bool" where
  "implements_Logger (DAppLogger p) = True"
| "implements_Logger (DForeignLogger k) = True"
| "implements_Logger DNil = False"
| "implements_Logger (DOther k) = False"

text \<open>
  \<^verbatim>\<open>sync.Pool\<close>: the idle values and the constructor \<^verbatim>\<open>New\<close>. The only function the
  repository ever stores in \<^verbatim>\<open>New\<close> is the closure of \<^verbatim>\<open>NewAppLogger\<close>, which captures
  the root \<^verbatim>\<open>lg\<close>; \<open>pool_New = Some lg\<close> is that closure, \<open>None\<close> the nil function of a
  zero-valued pool.
\<close>

record Pool =
  items :: "iface list"
  pool_New :: "logger_Logger option"

text \<open>
  \<^verbatim>\<open>type AppLogger struct { *logger.Logger; mux; pool; requestID }\<close>. The embedded
  pointer is \<open>None\<close> when nil. The lock has no state in a sequential model.
\<close>

record AppLogger =
  Logger :: "logger_Logger option"
  pool :: Pool
  requestID :: string

type_synonym heap = "AppLogger list"

text \<open>
  The environment: whether the operating system lets \<^verbatim>\<open>logger.New\<close> open a file sink
  (\<open>Some err\<close> is the error), and what \<^verbatim>\<open>New\<close> of another \<^verbatim>\<open>Logger\<close> implementation
  returns.
\<close>

record env =
  open_error :: "string \<Rightarrow> string option"
  foreign_New :: "nat \<Rightarrow> string \<Rightarrow> panic + iface"

definition deref :: "heap \<Rightarrow> nat option \<Rightarrow> AppLogger option" where
  "deref h p = (case p of None \<Rightarrow> None
                | Some a \<Rightarrow> if a < length h then Some (h ! a) else None)"

subsection \<open>The external logger\<close>

text \<open>
  Modelled from the spec: the external constructor \<^verbatim>\<open>logger.New\<close>. The sink selector has
  the recognized values stdout, stderr, null/nil and a filesystem path; the fixed sinks
  always open (the default stderr handle "never fails"), a path opens unless the
  operating system refuses it.
\<close>

definition logger_New :: "env \<Rightarrow> string \<Rightarrow> string + logger_Logger" where
  "logger_New e out =
     (if out \<in> {''stdout'', ''stderr'', ''null'', ''nil''}
      then Inr \<lparr>lg_output = out, lg_tags = []\<rparr>
      else (case open_error e out of
              Some err \<Rightarrow> Inl err
            | None \<Rightarrow> Inr \<lparr>lg_output = out, lg_tags = []\<rparr>))"

text \<open>
  Modelled from the spec: \<^verbatim>\<open>lg.New()\<close> produces a logger "sharing the same sink", and
  \<^verbatim>\<open>SetTags(requestID)\<close> updates the tag state "to reflect the id".
\<close>

definition Logger_New :: "logger_Logger \<Rightarrow> logger_Logger" where
  "Logger_New lg = \<lparr>lg_output = lg_output lg, lg_tags = []\<rparr>"

definition SetTags :: "logger_Logger \<Rightarrow> string list \<Rightarrow> logger_Logger" where
  "SetTags lg ts = lg\<lparr>lg_tags := ts\<rparr>"

subsection \<open>Go's path package\<close>

text \<open>
  \<^verbatim>\<open>path.Clean\<close> and \<^verbatim>\<open>path.Join\<close> of the standard library, on the elements between
  slashes: empty and \<^verbatim>\<open>.\<close> elements are dropped, \<^verbatim>\<open>..\<close> removes the element before it
  (at the root it is dropped, at the start of a relative path it is kept), the empty
  result is \<^verbatim>\<open>.\<close>.
\<close>

fun split_on :: "char \<Rightarrow> string \<Rightarrow> string list" where
  "split_on sep [] = [[]]"
| "split_on sep (c # cs) =
     (if c = sep then [] # split_on sep cs
      else (case split_on sep cs of
              [] \<Rightarrow> [[c]]
            | x # xs \<Rightarrow> (c # x) # xs))"

fun join_with :: "string \<Rightarrow> string list \<Rightarrow> string" where
  "join_with sep [] = []"
| "join_with sep [x] = x"
| "join_with sep (x # y # ys) = x @ sep @ join_with sep (y # ys)"

text \<open>The stack of kept elements is held in reverse.\<close>

fun clean_elems :: "bool \<Rightarrow> string list \<Rightarrow> string list \<Rightarrow> string list" where
  "clean_elems rooted [] st = rev st"
| "clean_elems rooted (x # xs) st =
     (if x = [] \<or> x = ''.'' then clean_elems rooted xs st
      else if x = ''..'' then
        (case st of
           [] \<Rightarrow> clean_elems rooted xs (if rooted then [] else [''..''])
         | t # ts \<Rightarrow>
             if t = ''..'' then clean_elems rooted xs (''..'' # st)
             else clean_elems rooted xs ts)
      else clean_elems rooted xs (x # st))"

definition path_Clean :: "string \<Rightarrow> string" where
  "path_Clean p =
     (if p = [] then ''.''
      else
        let rooted = (hd p = CHR ''/'');
            out = clean_elems rooted (split_on CHR ''/'' p) []
        in if rooted then CHR ''/'' # join_with ''/'' out
           else if out = [] then ''.''
           else join_with ''/'' out)"

definition path_Join :: "string list \<Rightarrow> string" where
  "path_Join elem =
     (case dropWhile (\<lambda>e. e = []) elem of
        [] \<Rightarrow> []
      | es \<Rightarrow> path_Clean (join_with ''/'' es))"

subsection \<open>NewAppLogger\<close>

text \<open>
  Lines 25 to 32: the \<^verbatim>\<open>switch\<close> on \<^verbatim>\<open>output\<close>. The default branch reads
  \<^verbatim>\<open>output[0]\<close>, which panics on the empty string.
\<close>

definition NewAppLogger_output :: "string \<Rightarrow> string \<Rightarrow> panic + string" where
  "NewAppLogger_output out filename =
     (if out = ''stdout'' \<or> out = ''stderr'' \<or> out = ''null'' \<or> out = ''nil''
      then Inr out
      else (case out of
              [] \<Rightarrow> Inl IndexOutOfRange
            | c # cs \<Rightarrow>
                if c \<noteq> CHR ''/'' then Inr (path_Join [out, filename @ ''.log''])
                else Inr out))"

text \<open>
  Lines 34 to 50: the root logger is opened (a failure is \<^verbatim>\<open>log.Panicf\<close>), a new
  \<^verbatim>\<open>AppLogger\<close> is allocated at the next free address, and the constructor closure is
  stored in its pool.
\<close>

definition NewAppLogger :: "env \<Rightarrow> heap \<Rightarrow> string \<Rightarrow> string \<Rightarrow> panic + (nat \<times> heap)" where
  "NewAppLogger e h out filename =
     (case NewAppLogger_output out filename of
        Inl p \<Rightarrow> Inl p
      | Inr out' \<Rightarrow>
          (case logger_New e out' of
             Inl err \<Rightarrow> Inl (LogPanicf out' err)
           | Inr lg \<Rightarrow>
               Inr (length h,
                    h @ [\<lparr>Logger = Some (Logger_New lg),
                          pool = \<lparr>items = [], pool_New = Some lg\<rparr>,
                          requestID = []\<rparr>])))"

subsection \<open>The pool\<close>

text \<open>
  \<^verbatim>\<open>sync.Pool.Get\<close> removes and returns an arbitrary idle value, and may ignore the idle
  values altogether; then it calls \<^verbatim>\<open>New\<close>, or returns nil when \<^verbatim>\<open>New\<close> is nil. The
  choice is an argument: \<open>Some i\<close> takes the idle value at index \<open>i\<close>, anything else
  treats the pool as empty. The closure of \<^verbatim>\<open>NewAppLogger\<close> allocates
  \<^verbatim>\<open>&AppLogger{Logger: lg.New()}\<close>, whose own pool is zero-valued.
\<close>

definition pool_miss :: "heap \<Rightarrow> Pool \<Rightarrow> iface \<times> Pool \<times> heap" where
  "pool_miss h p =
     (case pool_New p of
        None \<Rightarrow> (DNil, p, h)
      | Some lg \<Rightarrow>
          (DAppLogger (Some (length h)), p,
           h @ [\<lparr>Logger = Some (Logger_New lg),
                 pool = \<lparr>items = [], pool_New = None\<rparr>,
                 requestID = []\<rparr>]))"

definition pool_Get :: "heap \<Rightarrow> Pool \<Rightarrow> nat option \<Rightarrow> iface \<times> Pool \<times> heap" where
  "pool_Get h p choice =
     (case choice of
        None \<Rightarrow> pool_miss h p
      | Some i \<Rightarrow>
          if i < length (items p)
          then (items p ! i, p\<lparr>items := take i (items p) @ drop (Suc i) (items p)\<rparr>, h)
          else pool_miss h p)"

text \<open>\<^verbatim>\<open>sync.Pool.Put\<close> ignores the nil interface.\<close>

definition pool_Put :: "Pool \<Rightarrow> iface \<Rightarrow> Pool" where
  "pool_Put p x = (if x = DNil then p else p\<lparr>items := items p @ [x]\<rparr>)"

subsection \<open>New, RequestID, Reuse\<close>

text \<open>Which \<^verbatim>\<open>return\<close> of \<^verbatim>\<open>New\<close> was taken: line 77, line 86 or line 89.\<close>

datatype branch = FastPath | PoolHandle | Fallback

text \<open>
  \<^verbatim>\<open>func (alog *AppLogger) New(requestID string) Logger\<close>. The receiver is a pointer;
  the pool is a field of the receiver, so \<^verbatim>\<open>pool.Get\<close> updates the receiver in the heap
  before the handle is stamped (the handle may be the receiver itself). The read lock
  has no effect in a sequential run. A nil embedded logger makes \<^verbatim>\<open>SetTags\<close> dereference
  nil.
\<close>

definition AppLogger_New ::
  "env \<Rightarrow> heap \<Rightarrow> nat option \<Rightarrow> string \<Rightarrow> nat option \<Rightarrow> panic + (branch \<times> iface \<times> heap)" where
  "AppLogger_New e h alog rid choice =
     (case alog of
        None \<Rightarrow> Inl NilDereference
      | Some a \<Rightarrow>
          (case deref h (Some a) of
             None \<Rightarrow> Inl NilDereference
           | Some obj \<Rightarrow>
               if requestID obj = rid then Inr (FastPath, DAppLogger (Some a), h)
               else
                 (case pool_Get h (pool obj) choice of
                    (lg, p', h') \<Rightarrow>
                      let h1 = h'[a := obj\<lparr>pool := p'\<rparr>]
                      in (case lg of
                            DAppLogger nlog \<Rightarrow>
                              (case nlog of
                                 None \<Rightarrow> Inl NilDereference
                               | Some b \<Rightarrow>
                                   (case deref h1 (Some b) of
                                      None \<Rightarrow> Inl NilDereference
                                    | Some n \<Rightarrow>
                                        (case Logger n of
                                           None \<Rightarrow> Inl NilDereference
                                         | Some l \<Rightarrow>
                                             Inr (PoolHandle, DAppLogger (Some b),
                                                  h1[b := n\<lparr>requestID := rid,
                                                             Logger := Some (SetTags l [rid])\<rparr>]))))
                          | DForeignLogger k \<Rightarrow>
                              (case foreign_New e k rid of
                                 Inl pn \<Rightarrow> Inl pn
                               | Inr r \<Rightarrow> Inr (Fallback, r, h1))
                          | DNil \<Rightarrow> Inl InterfaceConversion
                          | DOther k \<Rightarrow> Inl InterfaceConversion))))"

definition AppLogger_RequestID :: "heap \<Rightarrow> nat option \<Rightarrow> panic + string" where
  "AppLogger_RequestID h alog =
     (case deref h alog of
        None \<Rightarrow> Inl NilDereference
      | Some obj \<Rightarrow> Inr (requestID obj))"

definition AppLogger_Reuse :: "heap \<Rightarrow> nat option \<Rightarrow> iface \<Rightarrow> panic + heap" where
  "AppLogger_Reuse h alog lg =
     (case alog of
        None \<Rightarrow> Inl NilDereference
      | Some a \<Rightarrow>
          (case deref h (Some a) of
             None \<Rightarrow> Inl NilDereference
           | Some obj \<Rightarrow> Inr (h[a := obj\<lparr>pool := pool_Put (pool obj) lg\<rparr>])))"

subsection \<open>Loggers of a context and of a request\<close>

text \<open>
  A \<^verbatim>\<open>context.Context\<close> is what \<^verbatim>\<open>Value\<close> answers for each key (the nil interface for a
  key that is not set). The key \<^verbatim>\<open>ctxLoggerKey\<close> is declared elsewhere in the package. Of
  an \<^verbatim>\<open>*http.Request\<close> only its context matters; \<^verbatim>\<open>Request.Context()\<close> answers the
  background context, which holds no value, when none was set. A variable of type
  \<^verbatim>\<open>context.Context\<close> or \<^verbatim>\<open>*http.Request\<close> may also be nil, which is no context and
  no request: that is \<open>None\<close>, and using it panics.
\<close>

datatype ctx_key = ctxLoggerKey | ctxOtherKey nat

type_synonym Context = "ctx_key \<Rightarrow> iface"

record Request =
  ctx :: "Context option"

definition context_Background :: Context where
  "context_Background = (\<lambda>k. DNil)"

definition Request_Context :: "Request \<Rightarrow> Context" where
  "Request_Context r = (case ctx r of Some c \<Rightarrow> c | None \<Rightarrow> context_Background)"

text \<open>
  \<^verbatim>\<open>alog, ok := ctx.Value(ctxLoggerKey).(Logger)\<close>: the assertion holds when the value's
  dynamic type implements \<^verbatim>\<open>Logger\<close>; otherwise \<^verbatim>\<open>NewAppLogger("stderr", "")\<close>.
\<close>

definition NewContextLogger :: "env \<Rightarrow> heap \<Rightarrow> Context option \<Rightarrow> panic + (iface \<times> heap)" where
  "NewContextLogger e h c =
     (case c of
        None \<Rightarrow> Inl NilDereference
      | Some cx \<Rightarrow>
          if implements_Logger (cx ctxLoggerKey) then Inr (cx ctxLoggerKey, h)
          else (case NewAppLogger e h ''stderr'' [] of
                  Inl p \<Rightarrow> Inl p
                | Inr (a, h') \<Rightarrow> Inr (DAppLogger (Some a), h')))"

definition NewRequestLogger :: "env \<Rightarrow> heap \<Rightarrow> Request option \<Rightarrow> panic + (iface \<times> heap)" where
  "NewRequestLogger e h r =
     (case r of
        None \<Rightarrow> Inl NilDereference
      | Some req \<Rightarrow> NewContextLogger e h (Some (Request_Context req)))"

subsection \<open>Well-formed pools and reachable heaps\<close>

text \<open>
  A value of the free-list is usable by \<^verbatim>\<open>New\<close> when it is a non-nil \<^verbatim>\<open>*AppLogger\<close>
  whose embedded logger is set; a pool is in order when its constructor is installed and
  every idle value is usable.
\<close>

definition live_handle :: "heap \<Rightarrow> iface \<Rightarrow> bool" where
  "live_handle h x =
     (case x of
        DAppLogger (Some b) \<Rightarrow>
          (case deref h (Some b) of Some n \<Rightarrow> Logger n \<noteq> None | None \<Rightarrow> False)
      | _ \<Rightarrow> False)"

definition pool_ok :: "heap \<Rightarrow> AppLogger \<Rightarrow> bool" where
  "pool_ok h obj =
     (pool_New (pool obj) \<noteq> None \<and> list_all (live_handle h) (items (pool obj)))"

definition root_inv :: "heap \<Rightarrow> nat \<Rightarrow> bool" where
  "root_inv h a = (case deref h (Some a) of None \<Rightarrow> False | Some obj \<Rightarrow> pool_ok h obj)"

text \<open>Whether \<^verbatim>\<open>pool.Get\<close> serves the request from the free-list.\<close>

definition hit :: "Pool \<Rightarrow> nat option \<Rightarrow> bool" where
  "hit p choice = (case choice of None \<Rightarrow> False | Some i \<Rightarrow> i < length (items p))"

text \<open>
  The heaps a program reaches from the construction of the logger at address \<open>a\<close> by
  further calls of \<^verbatim>\<open>NewAppLogger\<close>, \<^verbatim>\<open>New\<close> and \<^verbatim>\<open>Reuse\<close> on any receiver, where
  every value passed to \<^verbatim>\<open>Reuse\<close> is a usable handle.
\<close>

inductive reachable :: "env \<Rightarrow> nat \<Rightarrow> heap \<Rightarrow> bool" for e :: env and a :: nat where
  root: "NewAppLogger e h0 out filename = Inr (a, h) \<Longrightarrow> reachable e a h"
| other_root: "reachable e a h \<Longrightarrow> NewAppLogger e h out filename = Inr (a', h')
     \<Longrightarrow> reachable e a h'"
| new: "reachable e a h \<Longrightarrow> AppLogger_New e h alog rid choice = Inr (br, lg, h')
     \<Longrightarrow> reachable e a h'"
| reuse: "reachable e a h \<Longrightarrow> live_handle h lg \<Longrightarrow> AppLogger_Reuse h alog lg = Inr h'
     \<Longrightarrow> reachable e a h'"

text \<open>Heaps only grow; an embedded logger stays set, a pool keeps its constructor and
  gains no idle value.\<close>

definition extends :: "heap \<Rightarrow> heap \<Rightarrow> bool" where
  "extends h h' = (length h \<le> length h' \<and>
     (\<forall>c < length h. (Logger (h ! c) \<noteq> None \<longrightarrow> Logger (h' ! c) \<noteq> None)
        \<and> pool_New (pool (h' ! c)) = pool_New (pool (h ! c))
        \<and> set (items (pool (h' ! c))) \<subseteq> set (items (pool (h ! c)))))"

section \<open>Hook stages (pkgs/hooks)\<close>

text \<open>
  \<^verbatim>\<open>hooks.NamedHook{Name, Apply}\<close>, as the services of the tests build it. \<^verbatim>\<open>Apply\<close>
  receives the response writer and the request and may change them: \<open>'st\<close> is their
  joint state.
\<close>

record 'st NamedHook =
  Name :: string
  Apply :: "'st \<Rightarrow> bool \<times> 'st"

datatype HookStage = RequestReceived | RequestRouted | ResponseReady | ResponseAlways

text \<open>
  Modelled from the spec: the stage runner of the hooks package, which is not among the
  sources. "Executes each Named Hook in registration order; each hook receives the
  in-progress response and request objects and may mutate them. If a hook returns false,
  stop iterating immediately and report false to the caller. If all hooks return true
  (or the stage has zero hooks), report true." Besides the report and the final state
  the model returns the hooks it executed, each with what it returned.
\<close>

fun runHooks :: "'st NamedHook list \<Rightarrow> 'st \<Rightarrow> bool \<times> 'st \<times> (string \<times> bool) list" where
  "runHooks [] s = (True, s, [])"
| "runHooks (hk # hks) s =
     (case Apply hk s of
        (ok, s') \<Rightarrow>
          if ok then (case runHooks hks s' of (r, s'', ex) \<Rightarrow> (r, s'', (Name hk, True) # ex))
          else (False, s', [(Name hk, False)]))"

definition runStage ::
  "(HookStage \<Rightarrow> 'st NamedHook list) \<Rightarrow> HookStage \<Rightarrow> 'st \<Rightarrow> bool \<times> 'st \<times> (string \<times> bool) list" where
  "runStage registry stage s = runHooks (registry stage) s"

section \<open>The component generator (cmd/commands/component.go)\<close>

subsection \<open>Component types\<close>

text \<open>The \<^verbatim>\<open>iota\<close> constants; \<open>u_comType\<close> is \<^verbatim>\<open>_comType\<close> and \<open>comType_u\<close> is
  \<^verbatim>\<open>comType_\<close>. A \<^verbatim>\<open>ComponentType\<close> is a Go \<^verbatim>\<open>int\<close>; the code only compares it.\<close>

type_synonym ComponentType = int

definition u_comType :: ComponentType where "u_comType = 0"
definition ComTypeController :: ComponentType where "ComTypeController = 1"
definition ComTypeMiddleware :: ComponentType where "ComTypeMiddleware = 2"
definition ComTypeModel :: ComponentType where "ComTypeModel = 3"
definition comType_u :: ComponentType where "comType_u = 4"

definition comDirs :: "ComponentType \<Rightarrow> string list option" where
  "comDirs ct =
     (if ct = ComTypeController then Some [''app'', ''controllers'']
      else if ct = ComTypeMiddleware then Some [''app'', ''middlewares'']
      else if ct = ComTypeModel then Some [''app'', ''models'']
      else None)"

definition Valid :: "ComponentType \<Rightarrow> bool" where
  "Valid ct = (ct > u_comType \<and> ct < comType_u)"

text \<open>\<^verbatim>\<open>strings.TrimSuffix\<close> and \<^verbatim>\<open>strings.Contains\<close> of the standard library.\<close>

definition strings_TrimSuffix :: "string \<Rightarrow> string \<Rightarrow> string" where
  "strings_TrimSuffix s suffix =
     (if length suffix \<le> length s \<and> drop (length s - length suffix) s = suffix
      then take (length s - length suffix) s
      else s)"

fun strings_Contains :: "string \<Rightarrow> string \<Rightarrow> bool" where
  "strings_Contains [] substr = (substr = [])"
| "strings_Contains (c # cs) substr =
     (take (length substr) (c # cs) = substr \<or> strings_Contains cs substr)"

definition Root :: "ComponentType \<Rightarrow> string \<Rightarrow> string" where
  "Root ct pwd =
     (case comDirs ct of
        None \<Rightarrow> pwd
      | Some dirs \<Rightarrow>
          let pwd1 = strings_TrimSuffix pwd ''/'';
              pwd2 = strings_TrimSuffix pwd1 ''/gogo''
          in path_Clean (path_Join [pwd2, ''gogo'', path_Join dirs]))"

definition ComponentType_String :: "ComponentType \<Rightarrow> string" where
  "ComponentType_String ct =
     (if ct = ComTypeController then ''controller''
      else if ct = ComTypeMiddleware then ''middleware''
      else if ct = ComTypeModel then ''model''
      else [])"

subsection \<open>The world of the command\<close>

record ComTemplateModel =
  tm_Name :: string
  tm_Args :: "string list"

text \<open>
  The errors a command returns: the two error variables of the package (declared
  outside the sources), an error of the operating system, an error of a template.
\<close>

datatype cmd_error =
    ErrComponentType
  | ErrInvalidRoot
  | OsError string
  | TemplateError string

text \<open>
  What the command reads and writes: the working directory as \<^verbatim>\<open>os.Getwd\<close> reports it,
  the files by path, and the lines logged to \<^verbatim>\<open>stderr\<close>.
\<close>

record world =
  getwd :: "string + string"
  files :: "string \<Rightarrow> string option"
  stderr_log :: "string list"

text \<open>
  What lies outside the sources: \<^verbatim>\<open>named.ToCamelCase\<close>, \<^verbatim>\<open>strings.Title\<close> and
  \<^verbatim>\<open>strings.ToLower\<close>, whether the operating system refuses to open a path, and what
  executing a template of the box writes (it may fail after writing, and a missing
  template may panic), and what \<^verbatim>\<open>fmt\<close> makes of a format that comes without operands
  (a message that holds a percent sign does not come out as it went in).
\<close>

record cmd_env =
  named_ToCamelCase :: "string \<Rightarrow> string list"
  strings_Title :: "string \<Rightarrow> string"
  strings_ToLower :: "string \<Rightarrow> string"
  open_refused :: "(string \<Rightarrow> string option) \<Rightarrow> string \<Rightarrow> string option"
  box_Execute :: "string \<Rightarrow> ComTemplateModel \<Rightarrow> panic + (string \<times> string option)"
  fmt_Sprintf :: "string \<Rightarrow> string"

text \<open>
  \<^verbatim>\<open>os.OpenFile(path, O_CREATE|O_WRONLY, 0644)\<close> creates the file when it is missing and
  keeps its content otherwise; the descriptor is the path, written from offset 0.
\<close>

definition os_OpenFile :: "cmd_env \<Rightarrow> world \<Rightarrow> string \<Rightarrow> string + (string \<times> world)" where
  "os_OpenFile ce w p =
     (case open_refused ce (files w) p of
        Some err \<Rightarrow> Inl err
      | None \<Rightarrow>
          Inr (p, (case files w p of
                     None \<Rightarrow> w\<lparr>files := (files w)(p \<mapsto> [])\<rparr>
                   | Some old \<Rightarrow> w)))"

definition fd_Write :: "world \<Rightarrow> string \<Rightarrow> string \<Rightarrow> world" where
  "fd_Write w fd text =
     (case files w fd of
        None \<Rightarrow> w\<lparr>files := (files w)(fd \<mapsto> text)\<rparr>
      | Some old \<Rightarrow> w\<lparr>files := (files w)(fd \<mapsto> text @ drop (length text) old)\<rparr>)"

text \<open>
  \<^verbatim>\<open>stderr.Error(msg)\<close> logs the message; \<^verbatim>\<open>stderr.Errorf(format)\<close> logs what the format
  expands to.
\<close>

definition stderr_Error :: "world \<Rightarrow> string \<Rightarrow> world" where
  "stderr_Error w msg = w\<lparr>stderr_log := stderr_log w @ [msg]\<rparr>"

definition stderr_Errorf :: "cmd_env \<Rightarrow> world \<Rightarrow> string \<Rightarrow> world" where
  "stderr_Errorf ce w format = w\<lparr>stderr_log := stderr_log w @ [fmt_Sprintf ce format]\<rparr>"

subsection \<open>newComponent\<close>

definition toCamelCase :: "cmd_env \<Rightarrow> string \<Rightarrow> string" where
  "toCamelCase ce name =
     concat (map (\<lambda>tmpname. concat (map (strings_Title ce) (split_on CHR ''_'' tmpname)))
                 (named_ToCamelCase ce name))"

definition toFilename :: "cmd_env \<Rightarrow> string \<Rightarrow> string" where
  "toFilename ce name =
     join_with ''_''
       (map (strings_ToLower ce) (filter (\<lambda>n. n \<noteq> ''_'') (named_ToCamelCase ce name)))
     @ ''.go''"

text \<open>
  Lines 195 to 208 and 210 to 223 are the same three steps on two files: open it, execute
  the template into it, log and return the first error. The error of \<^verbatim>\<open>os.OpenFile\<close>
  is logged by \<^verbatim>\<open>stderr.Error(err.Error())\<close>, the error of the template by
  \<^verbatim>\<open>stderr.Errorf(err.Error())\<close>, with the message in the place of the format.
\<close>

definition generate ::
  "cmd_env \<Rightarrow> world \<Rightarrow> string \<Rightarrow> string \<Rightarrow> ComTemplateModel
     \<Rightarrow> panic + (cmd_error option \<times> world)" where
  "generate ce w p template comArgs =
     (case os_OpenFile ce w p of
        Inl err \<Rightarrow> Inr (Some (OsError err), stderr_Error w err)
      | Inr (fd, w1) \<Rightarrow>
          (case box_Execute ce template comArgs of
             Inl pn \<Rightarrow> Inl pn
           | Inr (text, None) \<Rightarrow> Inr (None, fd_Write w1 fd text)
           | Inr (text, Some err) \<Rightarrow>
               Inr (Some (TemplateError err), stderr_Errorf ce (fd_Write w1 fd text) err)))"

definition newComponent ::
  "cmd_env \<Rightarrow> world \<Rightarrow> ComponentType \<Rightarrow> string \<Rightarrow> string list
     \<Rightarrow> panic + (cmd_error option \<times> world)" where
  "newComponent ce w com name args =
     (if \<not> Valid com then Inr (Some ErrComponentType, w)
      else
        (case getwd w of
           Inl err \<Rightarrow> Inr (Some (OsError err), stderr_Error w err)
         | Inr root \<Rightarrow>
             let comRoot = Root com root in
             if \<not> strings_Contains comRoot ''/gogo/'' then Inr (Some ErrInvalidRoot, w)
             else
               let comName = name;
                   comArgs = \<lparr>tm_Name = toCamelCase ce comName, tm_Args = args\<rparr>
               in (case generate ce w (path_Join [comRoot, toFilename ce comName])
                          (''template_'' @ ComponentType_String com) comArgs of
                     Inl pn \<Rightarrow> Inl pn
                   | Inr (Some err, w1) \<Rightarrow> Inr (Some err, w1)
                   | Inr (None, w1) \<Rightarrow>
                       generate ce w1 (path_Join [comRoot, toFilename ce (comName @ ''_test'')])
                         (''template_'' @ ComponentType_String com @ ''_test'') comArgs)))"

section \<open>Properties of the logger\<close>

lemma deref_Some: "deref h (Some a) = (if a < length h then Some (h ! a) else None)"
  by (simp add: deref_def)

lemma deref_None: "deref h None = None"
  by (simp add: deref_def)

subsection \<open>Helper lemmas on heaps and pools\<close>

lemma live_handle_iff:
  "live_handle h x \<longleftrightarrow> (\<exists>b. x = DAppLogger (Some b) \<and> b < length h \<and> Logger (h ! b) \<noteq> None)"
  by (auto simp: live_handle_def deref_Some split: iface.splits option.splits)

lemma extends_refl: "extends h h"
  by (simp add: extends_def)

lemma extends_trans:
  assumes 1: "extends h h'" and 2: "extends h' h''"
  shows "extends h h''"
proof -
  have len: "length h \<le> length h'" "length h' \<le> length h''"
    using 1 2 by (simp_all add: extends_def)
  {
    fix c assume c: "c < length h"
    then have c': "c < length h'" using len by simp
    from 1 c have a: "Logger (h ! c) \<noteq> None \<longrightarrow> Logger (h' ! c) \<noteq> None"
      "pool_New (pool (h' ! c)) = pool_New (pool (h ! c))"
      "set (items (pool (h' ! c))) \<subseteq> set (items (pool (h ! c)))"
      by (simp_all add: extends_def)
    from 2 c' have b: "Logger (h' ! c) \<noteq> None \<longrightarrow> Logger (h'' ! c) \<noteq> None"
      "pool_New (pool (h'' ! c)) = pool_New (pool (h' ! c))"
      "set (items (pool (h'' ! c))) \<subseteq> set (items (pool (h' ! c)))"
      by (simp_all add: extends_def)
    from a b have "(Logger (h ! c) \<noteq> None \<longrightarrow> Logger (h'' ! c) \<noteq> None)
        \<and> pool_New (pool (h'' ! c)) = pool_New (pool (h ! c))
        \<and> set (items (pool (h'' ! c))) \<subseteq> set (items (pool (h ! c)))"
      by auto
  }
  with len show ?thesis by (simp add: extends_def)
qed

lemma extends_append: "extends h (h @ xs)"
  by (simp add: extends_def nth_append)

lemma live_handle_extends: "extends h h' \<Longrightarrow> live_handle h x \<Longrightarrow> live_handle h' x"
  by (auto simp: live_handle_iff extends_def)

lemma extends_update_pool:
  assumes "a < length h" "pool_New p = pool_New (pool (h ! a))"
    "set (items p) \<subseteq> set (items (pool (h ! a)))"
  shows "extends h (h[a := (h ! a)\<lparr>pool := p\<rparr>])"
  using assms by (auto simp: extends_def nth_list_update)

lemma extends_stamp:
  assumes "b < length h"
  shows "extends h (h[b := (h ! b)\<lparr>requestID := rid, Logger := Some l\<rparr>])"
  using assms by (auto simp: extends_def nth_list_update)

lemma pool_miss_cases:
  "pool_miss h p = (DNil, p, h) \<and> pool_New p = None
   \<or> (\<exists>lg. pool_New p = Some lg \<and>
        pool_miss h p = (DAppLogger (Some (length h)), p,
           h @ [\<lparr>Logger = Some (Logger_New lg), pool = \<lparr>items = [], pool_New = None\<rparr>,
                 requestID = []\<rparr>]))"
  by (cases "pool_New p") (auto simp: pool_miss_def)

lemma pool_Get_hit:
  assumes "i < length (items p)"
  shows "pool_Get h p (Some i) =
           (items p ! i, p\<lparr>items := take i (items p) @ drop (Suc i) (items p)\<rparr>, h)"
  using assms by (simp add: pool_Get_def)

lemma pool_Get_miss:
  assumes "\<not> hit p choice"
  shows "pool_Get h p choice = pool_miss h p"
  using assms by (auto simp: pool_Get_def hit_def split: option.splits)

lemma pool_Get_frame:
  assumes "pool_Get h p choice = (lg, p', h')"
  shows "pool_New p' = pool_New p \<and> set (items p') \<subseteq> set (items p) \<and> extends h h'"
proof (cases "hit p choice")
  case True
  then obtain i where i: "choice = Some i" "i < length (items p)"
    by (auto simp: hit_def split: option.splits)
  with assms have "p' = p\<lparr>items := take i (items p) @ drop (Suc i) (items p)\<rparr>" "h' = h"
    by (simp_all add: pool_Get_hit)
  then show ?thesis
    by (auto simp: extends_refl dest: in_set_takeD in_set_dropD)
next
  case False
  with assms have "pool_miss h p = (lg, p', h')" by (simp add: pool_Get_miss)
  with pool_miss_cases [of h p] show ?thesis
    by (auto simp: extends_append extends_refl)
qed

text \<open>Every call of \<^verbatim>\<open>New\<close> that returns leaves a heap that extends the one it found.\<close>

lemma New_frame:
  assumes "AppLogger_New e h alog rid choice = Inr (br, lg, h')"
  shows "extends h h'"
proof -
  from assms obtain a obj where a: "alog = Some a" "a < length h" "obj = h ! a"
    by (cases alog) (auto simp: AppLogger_New_def deref_def split: if_splits)
  show ?thesis
  proof (cases "requestID obj = rid")
    case True
    with a assms show ?thesis by (auto simp: AppLogger_New_def deref_Some extends_refl)
  next
    case False
    obtain x p' h0 where g: "pool_Get h (pool obj) choice = (x, p', h0)"
      by (cases "pool_Get h (pool obj) choice") auto
    note fr = pool_Get_frame [OF g]
    then have e0: "extends h h0" by simp
    then have len: "a < length h0" using a by (simp add: extends_def)
    let ?h1 = "h0[a := obj\<lparr>pool := p'\<rparr>]"
    have same: "h0 ! a = obj"
      using g a pool_miss_cases [of h "pool obj"]
      by (auto simp: pool_Get_def nth_append split: option.splits if_splits)
    have "pool_New p' = pool_New (pool (h0 ! a))" "set (items p') \<subseteq> set (items (pool (h0 ! a)))"
      using fr same by auto
    with len have "extends h0 (h0[a := (h0 ! a)\<lparr>pool := p'\<rparr>])"
      by (rule extends_update_pool)
    then have e1: "extends h0 ?h1" by (simp add: same)
    have e01: "extends h ?h1" using e0 e1 by (rule extends_trans)
    from assms a False g show ?thesis
    proof (cases x)
      case (DAppLogger nlog)
      with assms a False g obtain b n l where
        b: "nlog = Some b" "b < length ?h1" "n = ?h1 ! b" "Logger n = Some l"
        and h': "h' = ?h1[b := n\<lparr>requestID := rid, Logger := Some (SetTags l [rid])\<rparr>]"
        by (cases nlog)
          (auto simp: AppLogger_New_def deref_Some deref_None Let_def
            split: option.splits if_splits)
      have "extends ?h1 h'" unfolding h' b(3) using b(2) by (rule extends_stamp)
      with e01 show ?thesis by (rule extends_trans)
    next
      case (DForeignLogger k)
      with assms a False g have "h' = ?h1"
        by (auto simp: AppLogger_New_def deref_Some Let_def split: sum.splits)
      with e01 show ?thesis by simp
    qed (auto simp: AppLogger_New_def deref_Some Let_def)
  qed
qed

text \<open>
  The slow path on a pool that is in order: the handle comes from the free-list or from
  the constructor, and leaves stamped.
\<close>

lemma New_stamps_handle:
  assumes d: "deref h (Some a) = Some obj"
    and ne: "requestID obj \<noteq> rid"
    and ok: "pool_ok h obj"
  shows "\<exists>b h' l.
           AppLogger_New e h (Some a) rid choice = Inr (PoolHandle, DAppLogger (Some b), h')
         \<and> (if hit (pool obj) choice
            then \<exists>i. choice = Some i \<and> items (pool obj) ! i = DAppLogger (Some b)
               \<and> length h' = length h
               \<and> items (pool (h' ! a)) = take i (items (pool obj)) @ drop (Suc i) (items (pool obj))
            else b = length h \<and> length h' = Suc (length h)
               \<and> items (pool (h' ! a)) = items (pool obj))
         \<and> b < length h'
         \<and> requestID (h' ! b) = rid
         \<and> Logger (h' ! b) = Some l \<and> lg_tags l = [rid]"
proof -
  from d have a: "a < length h" "obj = h ! a"
    by (auto simp: deref_Some split: if_splits)
  from ok obtain lg0 where ctor: "pool_New (pool obj) = Some lg0"
    by (auto simp: pool_ok_def)
  from ok have live: "list_all (live_handle h) (items (pool obj))"
    by (simp add: pool_ok_def)
  show ?thesis
  proof (cases "hit (pool obj) choice")
    case True
    then obtain i where i: "choice = Some i" "i < length (items (pool obj))"
      by (auto simp: hit_def split: option.splits)
    from live i have "live_handle h (items (pool obj) ! i)"
      by (simp add: list_all_length)
    then obtain b l0 where b: "items (pool obj) ! i = DAppLogger (Some b)" "b < length h"
      "Logger (h ! b) = Some l0"
      by (auto simp: live_handle_iff)
    let ?p = "(pool obj)\<lparr>items := take i (items (pool obj)) @ drop (Suc i) (items (pool obj))\<rparr>"
    let ?h1 = "h[a := obj\<lparr>pool := ?p\<rparr>]"
    have lg1: "Logger (?h1 ! b) = Some l0"
      using b a by (cases "a = b") simp_all
    have "AppLogger_New e h (Some a) rid choice =
            Inr (PoolHandle, DAppLogger (Some b),
                 ?h1[b := (?h1 ! b)\<lparr>requestID := rid, Logger := Some (SetTags l0 [rid])\<rparr>])"
      using d ne i b a lg1
      by (simp add: AppLogger_New_def pool_Get_hit deref_Some Let_def)
    moreover have
      "items (pool ((?h1[b := (?h1 ! b)\<lparr>requestID := rid, Logger := Some (SetTags l0 [rid])\<rparr>]) ! a))
         = take i (items (pool obj)) @ drop (Suc i) (items (pool obj))"
      using a b by (cases "a = b") simp_all
    ultimately show ?thesis
      using True i b a by (simp add: SetTags_def)
  next
    case False
    then have m: "pool_Get h (pool obj) choice = pool_miss h (pool obj)"
      by (rule pool_Get_miss)
    let ?n = "\<lparr>Logger = Some (Logger_New lg0), pool = \<lparr>items = [], pool_New = None\<rparr>,
               requestID = []\<rparr>"
    let ?h0 = "h @ [?n]"
    let ?h1 = "?h0[a := obj\<lparr>pool := pool obj\<rparr>]"
    have h1: "?h1 ! length h = ?n" using a by (simp add: nth_append)
    have "AppLogger_New e h (Some a) rid choice =
            Inr (PoolHandle, DAppLogger (Some (length h)),
                 ?h1[length h := ?n\<lparr>requestID := rid,
                                     Logger := Some (SetTags (Logger_New lg0) [rid])\<rparr>])"
      using d ne m ctor a h1
      by (simp add: AppLogger_New_def pool_miss_def deref_Some Let_def)
    then show ?thesis
      using False a by (simp add: SetTags_def nth_append)
  qed
qed

lemma root_inv_extends:
  assumes "root_inv h a" "extends h h'"
  shows "root_inv h' a"
proof -
  from assms(1) have a: "a < length h" "pool_ok h (h ! a)"
    by (auto simp: root_inv_def deref_Some split: if_splits)
  from assms(2) a have len: "a < length h'"
    and pn: "pool_New (pool (h' ! a)) = pool_New (pool (h ! a))"
    and sub: "set (items (pool (h' ! a))) \<subseteq> set (items (pool (h ! a)))"
    by (auto simp: extends_def)
  from a(2) have "\<forall>x \<in> set (items (pool (h ! a))). live_handle h x"
    by (simp add: pool_ok_def list_all_iff)
  with sub assms(2) have "\<forall>x \<in> set (items (pool (h' ! a))). live_handle h' x"
    by (blast intro: live_handle_extends)
  with pn a(2) len show ?thesis
    by (simp add: root_inv_def deref_Some pool_ok_def list_all_iff)
qed

lemma NewAppLogger_frame:
  assumes "NewAppLogger e h out filename = Inr (a, h')"
  shows "extends h h' \<and> a = length h \<and> root_inv h' a"
  using assms
  by (auto simp: NewAppLogger_def extends_append root_inv_def deref_Some pool_ok_def
      split: sum.splits)

lemma Reuse_inv:
  assumes "root_inv h a" "live_handle h lg" "AppLogger_Reuse h alog lg = Inr h'"
  shows "root_inv h' a"
proof -
  from assms(3) obtain c where c: "alog = Some c" "c < length h"
    "h' = h[c := (h ! c)\<lparr>pool := pool_Put (pool (h ! c)) lg\<rparr>]"
    by (cases alog) (auto simp: AppLogger_Reuse_def deref_def split: if_splits)
  from assms(1) have a: "a < length h" "pool_ok h (h ! a)"
    by (auto simp: root_inv_def deref_Some split: if_splits)
  have lh: "\<And>x. live_handle h x \<Longrightarrow> live_handle h' x"
    using c by (auto simp: live_handle_iff nth_list_update)
  show ?thesis
  proof (cases "c = a")
    case True
    with a c assms(2) lh show ?thesis
      by (auto simp: root_inv_def deref_Some pool_ok_def pool_Put_def list_all_iff)
  next
    case False
    with a c lh show ?thesis
      by (auto simp: root_inv_def deref_Some pool_ok_def list_all_iff)
  qed
qed

lemma reachable_root_inv: "reachable e a h \<Longrightarrow> root_inv h a"
proof (induction rule: reachable.induct)
  case (root h0 out filename h)
  then show ?case by (simp add: NewAppLogger_frame)
next
  case (other_root h out filename a' h')
  then show ?case using NewAppLogger_frame root_inv_extends by blast
next
  case (new h alog rid choice br lg h')
  then show ?case using New_frame root_inv_extends by blast
next
  case (reuse h lg alog h')
  then show ?case using Reuse_inv by blast
qed



subsection \<open>Acquiring a handle\<close>

text \<open>
  C1. For every AppLogger whose cached \<^verbatim>\<open>requestID\<close> equals the argument, \<^verbatim>\<open>New\<close>
  returns the receiver itself (the same address) through the fast path; the heap, and
  with it the receiver and its free-list, is unchanged, whatever the pool would have
  chosen.
\<close>

theorem New_fast_path:
  assumes "deref h (Some a) = Some obj" and "requestID obj = rid"
  shows "AppLogger_New e h (Some a) rid choice = Inr (FastPath, DAppLogger (Some a), h)"
  using assms by (simp add: AppLogger_New_def)

theorem New_fast_path_witness:
  "AppLogger_New \<lparr>open_error = (\<lambda>p. None), foreign_New = (\<lambda>k r. Inr (DForeignLogger k))\<rparr>
     [\<lparr>Logger = None, pool = \<lparr>items = [DAppLogger (Some 0)], pool_New = None\<rparr>,
       requestID = ''x-request-id''\<rparr>] (Some 0) ''x-request-id'' (Some 0)
   = Inr (FastPath, DAppLogger (Some 0),
     [\<lparr>Logger = None, pool = \<lparr>items = [DAppLogger (Some 0)], pool_New = None\<rparr>,
       requestID = ''x-request-id''\<rparr>])"
proof -
  let ?obj = "\<lparr>Logger = None, pool = \<lparr>items = [DAppLogger (Some 0)], pool_New = None\<rparr>,
               requestID = ''x-request-id''\<rparr>"
  have d: "deref [?obj] (Some 0) = Some ?obj" by (simp add: deref_Some)
  have r: "requestID ?obj = ''x-request-id''" by simp
  show ?thesis by (rule New_fast_path [OF d r])
qed

text \<open>
  C2, as amended. For every AppLogger whose pool is in order (the constructor closure of
  \<^verbatim>\<open>NewAppLogger\<close> is installed and the free-list holds only non-nil \<^verbatim>\<open>*AppLogger\<close>
  handles with their embedded logger set) and every \<^verbatim>\<open>requestID\<close> other than the cached
  one, \<^verbatim>\<open>New\<close> takes a handle from the free-list, or allocates one through the
  constructor when the pool serves nothing, sets its \<^verbatim>\<open>requestID\<close> and its tags to the
  given id, and returns it, so that \<^verbatim>\<open>RequestID()\<close> of the result is the given id.
\<close>

theorem New_slow_path:
  assumes "deref h (Some a) = Some obj" and "requestID obj \<noteq> rid" and "pool_ok h obj"
  shows "\<exists>b h' l.
           AppLogger_New e h (Some a) rid choice = Inr (PoolHandle, DAppLogger (Some b), h')
         \<and> (if hit (pool obj) choice
            then \<exists>i. choice = Some i \<and> items (pool obj) ! i = DAppLogger (Some b)
               \<and> length h' = length h
               \<and> items (pool (h' ! a)) = take i (items (pool obj)) @ drop (Suc i) (items (pool obj))
            else b = length h \<and> length h' = Suc (length h)
               \<and> items (pool (h' ! a)) = items (pool obj))
         \<and> AppLogger_RequestID h' (Some b) = Inr rid
         \<and> Logger (h' ! b) = Some l \<and> lg_tags l = [rid]"
proof -
  from New_stamps_handle [OF assms, of e choice] obtain b h' l where
    r: "AppLogger_New e h (Some a) rid choice = Inr (PoolHandle, DAppLogger (Some b), h')"
    and p: "if hit (pool obj) choice
            then \<exists>i. choice = Some i \<and> items (pool obj) ! i = DAppLogger (Some b)
               \<and> length h' = length h
               \<and> items (pool (h' ! a)) = take i (items (pool obj)) @ drop (Suc i) (items (pool obj))
            else b = length h \<and> length h' = Suc (length h)
               \<and> items (pool (h' ! a)) = items (pool obj)"
    and s: "b < length h'" "requestID (h' ! b) = rid" "Logger (h' ! b) = Some l" "lg_tags l = [rid]"
    by blast
  from s have "AppLogger_RequestID h' (Some b) = Inr rid"
    by (simp add: AppLogger_RequestID_def deref_Some)
  with r p s show ?thesis by blast
qed

text \<open>
  The witness is the second half of the reuse test: the handle stamped
  \<^verbatim>\<open>di-tseuqer-x\<close> lies idle in the root's pool and is acquired again for
  \<^verbatim>\<open>x-request-id\<close>.
\<close>

theorem New_slow_path_witness:
  "pool_ok
     [\<lparr>Logger = Some \<lparr>lg_output = ''nil'', lg_tags = []\<rparr>,
       pool = \<lparr>items = [DAppLogger (Some 1)],
               pool_New = Some \<lparr>lg_output = ''nil'', lg_tags = []\<rparr>\<rparr>,
       requestID = []\<rparr>,
      \<lparr>Logger = Some \<lparr>lg_output = ''nil'', lg_tags = [''di-tseuqer-x'']\<rparr>,
       pool = \<lparr>items = [], pool_New = None\<rparr>, requestID = ''di-tseuqer-x''\<rparr>]
     \<lparr>Logger = Some \<lparr>lg_output = ''nil'', lg_tags = []\<rparr>,
       pool = \<lparr>items = [DAppLogger (Some 1)],
               pool_New = Some \<lparr>lg_output = ''nil'', lg_tags = []\<rparr>\<rparr>,
       requestID = []\<rparr>
   \<and> (\<exists>b h' l.
         AppLogger_New \<lparr>open_error = (\<lambda>p. None), foreign_New = (\<lambda>k r. Inr (DForeignLogger k))\<rparr>
           [\<lparr>Logger = Some \<lparr>lg_output = ''nil'', lg_tags = []\<rparr>,
             pool = \<lparr>items = [DAppLogger (Some 1)],
                     pool_New = Some \<lparr>lg_output = ''nil'', lg_tags = []\<rparr>\<rparr>,
             requestID = []\<rparr>,
            \<lparr>Logger = Some \<lparr>lg_output = ''nil'', lg_tags = [''di-tseuqer-x'']\<rparr>,
             pool = \<lparr>items = [], pool_New = None\<rparr>, requestID = ''di-tseuqer-x''\<rparr>]
           (Some 0) ''x-request-id'' (Some 0)
         = Inr (PoolHandle, DAppLogger (Some b), h')
       \<and> b = 1
       \<and> AppLogger_RequestID h' (Some b) = Inr ''x-request-id''
       \<and> Logger (h' ! b) = Some l \<and> lg_tags l = [''x-request-id''])"
proof -
  let ?e = "\<lparr>open_error = (\<lambda>p. None), foreign_New = (\<lambda>k r. Inr (DForeignLogger k))\<rparr>"
  let ?root = "\<lparr>Logger = Some \<lparr>lg_output = ''nil'', lg_tags = []\<rparr>,
       pool = \<lparr>items = [DAppLogger (Some 1)],
               pool_New = Some \<lparr>lg_output = ''nil'', lg_tags = []\<rparr>\<rparr>,
       requestID = []\<rparr>"
  let ?h = "[?root,
      \<lparr>Logger = Some \<lparr>lg_output = ''nil'', lg_tags = [''di-tseuqer-x'']\<rparr>,
       pool = \<lparr>items = [], pool_New = None\<rparr>, requestID = ''di-tseuqer-x''\<rparr>]"
  have d: "deref ?h (Some 0) = Some ?root" by (simp add: deref_Some)
  have n: "requestID ?root \<noteq> ''x-request-id''" by simp
  have ok: "pool_ok ?h ?root" by (simp add: pool_ok_def live_handle_def deref_Some)
  have "hit (pool ?root) (Some 0)" by (simp add: hit_def)
  with New_slow_path [OF d n ok, of ?e "Some 0"] ok show ?thesis
    by auto
qed

text \<open>
  The claim as first stated fails for a handle the constructor made: its own pool is
  zero-valued, so \<^verbatim>\<open>pool.Get\<close> answers nil and the conversion to \<^verbatim>\<open>Logger\<close> panics. And
  an idle value of another \<^verbatim>\<open>Logger\<close> type is not stamped: its own \<^verbatim>\<open>New\<close> answers.
\<close>

theorem New_slow_path_counterexample:
  "NewAppLogger \<lparr>open_error = (\<lambda>p. None), foreign_New = (\<lambda>k r. Inr (DForeignLogger k))\<rparr>
     [] ''nil'' []
   = Inr (0, [\<lparr>Logger = Some \<lparr>lg_output = ''nil'', lg_tags = []\<rparr>,
               pool = \<lparr>items = [], pool_New = Some \<lparr>lg_output = ''nil'', lg_tags = []\<rparr>\<rparr>,
               requestID = []\<rparr>])
   \<and> AppLogger_New \<lparr>open_error = (\<lambda>p. None), foreign_New = (\<lambda>k r. Inr (DForeignLogger k))\<rparr>
       [\<lparr>Logger = Some \<lparr>lg_output = ''nil'', lg_tags = []\<rparr>,
         pool = \<lparr>items = [], pool_New = Some \<lparr>lg_output = ''nil'', lg_tags = []\<rparr>\<rparr>,
         requestID = []\<rparr>] (Some 0) ''a'' None
     = Inr (PoolHandle, DAppLogger (Some 1),
         [\<lparr>Logger = Some \<lparr>lg_output = ''nil'', lg_tags = []\<rparr>,
           pool = \<lparr>items = [], pool_New = Some \<lparr>lg_output = ''nil'', lg_tags = []\<rparr>\<rparr>,
           requestID = []\<rparr>,
          \<lparr>Logger = Some \<lparr>lg_output = ''nil'', lg_tags = [''a'']\<rparr>,
           pool = \<lparr>items = [], pool_New = None\<rparr>, requestID = ''a''\<rparr>])
   \<and> ''a'' \<noteq> ''b''
   \<and> AppLogger_New \<lparr>open_error = (\<lambda>p. None), foreign_New = (\<lambda>k r. Inr (DForeignLogger k))\<rparr>
       [\<lparr>Logger = Some \<lparr>lg_output = ''nil'', lg_tags = []\<rparr>,
         pool = \<lparr>items = [], pool_New = Some \<lparr>lg_output = ''nil'', lg_tags = []\<rparr>\<rparr>,
         requestID = []\<rparr>,
        \<lparr>Logger = Some \<lparr>lg_output = ''nil'', lg_tags = [''a'']\<rparr>,
         pool = \<lparr>items = [], pool_New = None\<rparr>, requestID = ''a''\<rparr>] (Some 1) ''b'' None
     = Inl InterfaceConversion
   \<and> AppLogger_New \<lparr>open_error = (\<lambda>p. None), foreign_New = (\<lambda>k r. Inr (DForeignLogger k))\<rparr>
       [\<lparr>Logger = Some \<lparr>lg_output = ''nil'', lg_tags = []\<rparr>,
         pool = \<lparr>items = [DForeignLogger 7],
                 pool_New = Some \<lparr>lg_output = ''nil'', lg_tags = []\<rparr>\<rparr>,
         requestID = []\<rparr>] (Some 0) ''a'' (Some 0)
     = Inr (Fallback, DForeignLogger 7,
         [\<lparr>Logger = Some \<lparr>lg_output = ''nil'', lg_tags = []\<rparr>,
           pool = \<lparr>items = [], pool_New = Some \<lparr>lg_output = ''nil'', lg_tags = []\<rparr>\<rparr>,
           requestID = []\<rparr>])"
  by (simp add: NewAppLogger_def NewAppLogger_output_def logger_New_def Logger_New_def
      AppLogger_New_def deref_def pool_Get_def pool_miss_def SetTags_def Let_def)

subsection \<open>Constructing the root logger\<close>

text \<open>
  C5. \<^verbatim>\<open>NewAppLogger\<close> has no error result: it panics or returns the address of a live
  AppLogger, newly allocated. When the underlying constructor cannot open the
  configured sink, the call panics through \<^verbatim>\<open>log.Panicf\<close>; when it can, the call
  returns.
\<close>

theorem NewAppLogger_panics_or_returns:
  "(case NewAppLogger e h out filename of
      Inl p \<Rightarrow> True
    | Inr (a, h') \<Rightarrow> deref h' (Some a) \<noteq> None \<and> a = length h \<and> take (length h) h' = h)
   \<and> (\<forall>out' err. NewAppLogger_output out filename = Inr out' \<and> logger_New e out' = Inl err
         \<longrightarrow> NewAppLogger e h out filename = Inl (LogPanicf out' err))
   \<and> (\<forall>out' lg. NewAppLogger_output out filename = Inr out' \<and> logger_New e out' = Inr lg
         \<longrightarrow> (\<exists>a h'. NewAppLogger e h out filename = Inr (a, h') \<and> deref h' (Some a) \<noteq> None))"
  by (auto simp: NewAppLogger_def deref_Some split: sum.splits)

theorem NewAppLogger_panics_or_returns_witness:
  "NewAppLogger
     \<lparr>open_error = (\<lambda>p. if p = ''/proc/app.log'' then Some ''permission denied'' else None),
       foreign_New = (\<lambda>k r. Inr (DForeignLogger k))\<rparr> [] ''/proc/app.log'' ''app''
     = Inl (LogPanicf ''/proc/app.log'' ''permission denied'')
   \<and> (\<exists>a h'. NewAppLogger
         \<lparr>open_error = (\<lambda>p. if p = ''/proc/app.log'' then Some ''permission denied'' else None),
           foreign_New = (\<lambda>k r. Inr (DForeignLogger k))\<rparr> [] ''/tmp/app.log'' ''app''
         = Inr (a, h')
       \<and> deref h' (Some a) \<noteq> None)"
proof -
  let ?e = "\<lparr>open_error = (\<lambda>p. if p = ''/proc/app.log'' then Some ''permission denied'' else None),
             foreign_New = (\<lambda>k r. Inr (DForeignLogger k))\<rparr>"
  have o1: "NewAppLogger_output ''/proc/app.log'' ''app'' = Inr ''/proc/app.log''"
    by (simp add: NewAppLogger_output_def)
  have l1: "logger_New ?e ''/proc/app.log'' = Inl ''permission denied''"
    by (simp add: logger_New_def)
  have o2: "NewAppLogger_output ''/tmp/app.log'' ''app'' = Inr ''/tmp/app.log''"
    by (simp add: NewAppLogger_output_def)
  have l2: "logger_New ?e ''/tmp/app.log'' = Inr \<lparr>lg_output = ''/tmp/app.log'', lg_tags = []\<rparr>"
    by (simp add: logger_New_def)
  from NewAppLogger_panics_or_returns
         [where e = ?e and h = "[]" and out = "''/proc/app.log''" and filename = "''app''"] o1 l1
  have a: "NewAppLogger ?e [] ''/proc/app.log'' ''app''
             = Inl (LogPanicf ''/proc/app.log'' ''permission denied'')"
    by blast
  from NewAppLogger_panics_or_returns
         [where e = ?e and h = "[]" and out = "''/tmp/app.log''" and filename = "''app''"] o2 l2
  have b: "\<exists>a h'. NewAppLogger ?e [] ''/tmp/app.log'' ''app'' = Inr (a, h')
             \<and> deref h' (Some a) \<noteq> None"
    by blast
  from a b show ?thesis by blast
qed

text \<open>
  C7. An \<^verbatim>\<open>output\<close> that is one of the four sink names or begins with a slash reaches
  the underlying constructor unchanged; every other value should reach it as
  \<^verbatim>\<open>path.Join(output, filename + ".log")\<close>. The empty \<^verbatim>\<open>output\<close> is such a value: it is
  none of the sink names, the joined path would be \<^verbatim>\<open>app.log\<close>, and the constructor
  would open it. The code does not get that far: \<^verbatim>\<open>output[0]\<close> in the test for a leading
  slash panics with an index out of range.
\<close>

theorem NewAppLogger_empty_output_not_joined:
  "NewAppLogger \<lparr>open_error = (\<lambda>p. None), foreign_New = (\<lambda>k r. Inr (DForeignLogger k))\<rparr>
        [] [] ''app'' = Inl IndexOutOfRange
   \<and> [] \<notin> {''stdout'', ''stderr'', ''null'', ''nil''}
   \<and> path_Join [[], ''app'' @ ''.log''] = ''app.log''
   \<and> logger_New \<lparr>open_error = (\<lambda>p. None), foreign_New = (\<lambda>k r. Inr (DForeignLogger k))\<rparr>
        (path_Join [[], ''app'' @ ''.log'']) = Inr \<lparr>lg_output = ''app.log'', lg_tags = []\<rparr>"
proof -
  have pj: "path_Join [[], ''app.log''] = ''app.log''" by code_simp
  show ?thesis
    by (simp add: pj NewAppLogger_def NewAppLogger_output_def logger_New_def)
qed

text \<open>
  On every non-empty \<^verbatim>\<open>output\<close> the code does what is asked: a sink name or a value
  with a leading slash goes to the constructor as it is, any other value joined with
  \<^verbatim>\<open>filename + ".log"\<close>. What the constructor received shows in the panic when it fails
  and in the sink of the loggers when it succeeds.
\<close>

lemma NewAppLogger_output_nonempty:
  assumes "out \<noteq> []"
  shows "NewAppLogger_output out filename =
           Inr (if out \<in> {''stdout'', ''stderr'', ''null'', ''nil''} \<or> hd out = CHR ''/''
                then out else path_Join [out, filename @ ''.log''])
       \<and> NewAppLogger e h out filename =
           (case logger_New e
                   (if out \<in> {''stdout'', ''stderr'', ''null'', ''nil''} \<or> hd out = CHR ''/''
                    then out else path_Join [out, filename @ ''.log'']) of
              Inl err \<Rightarrow>
                Inl (LogPanicf
                       (if out \<in> {''stdout'', ''stderr'', ''null'', ''nil''} \<or> hd out = CHR ''/''
                        then out else path_Join [out, filename @ ''.log'']) err)
            | Inr lg \<Rightarrow>
                Inr (length h,
                     h @ [\<lparr>Logger = Some (Logger_New lg),
                           pool = \<lparr>items = [], pool_New = Some lg\<rparr>,
                           requestID = []\<rparr>]))"
  using assms
  by (cases out) (auto simp: NewAppLogger_def NewAppLogger_output_def split: sum.splits)

lemma path_Join_logs_app: "path_Join [''logs'', ''app.log''] = ''logs/app.log''"
  by code_simp

lemma NewAppLogger_relative_output:
  "NewAppLogger \<lparr>open_error = (\<lambda>p. None), foreign_New = (\<lambda>k r. Inr (DForeignLogger k))\<rparr>
        [] ''logs'' ''app''
     = Inr (0, [\<lparr>Logger = Some \<lparr>lg_output = ''logs/app.log'', lg_tags = []\<rparr>,
                 pool = \<lparr>items = [],
                         pool_New = Some \<lparr>lg_output = ''logs/app.log'', lg_tags = []\<rparr>\<rparr>,
                 requestID = []\<rparr>])"
  using NewAppLogger_output_nonempty
    [where out = "''logs''" and filename = "''app''" and h = "[]"
       and e = "\<lparr>open_error = (\<lambda>p. None), foreign_New = (\<lambda>k r. Inr (DForeignLogger k))\<rparr>"]
  by (simp add: path_Join_logs_app logger_New_def Logger_New_def)

text \<open>
  C10. \<^verbatim>\<open>NewAppLogger\<close> is not total: on the empty \<^verbatim>\<open>output\<close>, which is none of the
  recognized sink names, \<^verbatim>\<open>output[0]\<close> panics with an index out of range. The result
  does not depend on the environment: the underlying constructor is never consulted.
\<close>

theorem NewAppLogger_empty_output_panics:
  "NewAppLogger e h [] filename = Inl IndexOutOfRange"
  by (simp add: NewAppLogger_def NewAppLogger_output_def)

subsection \<open>The logger of a context\<close>

text \<open>
  C6. For every context \<open>c\<close>, \<^verbatim>\<open>NewContextLogger\<close> returns the value stored under
  \<^verbatim>\<open>ctxLoggerKey\<close> when that value is a \<^verbatim>\<open>Logger\<close>, with the heap untouched, and otherwise
  a newly allocated AppLogger on the \<^verbatim>\<open>stderr\<close> sink; for every request \<open>r\<close>,
  \<^verbatim>\<open>NewRequestLogger\<close> does the same on the context of the request. Neither panics, and
  the result is never the nil interface.
\<close>

theorem NewContextLogger_total:
  "NewContextLogger e h (Some c) =
     (if implements_Logger (c ctxLoggerKey) then Inr (c ctxLoggerKey, h)
      else Inr (DAppLogger (Some (length h)),
                h @ [\<lparr>Logger = Some \<lparr>lg_output = ''stderr'', lg_tags = []\<rparr>,
                      pool = \<lparr>items = [],
                              pool_New = Some \<lparr>lg_output = ''stderr'', lg_tags = []\<rparr>\<rparr>,
                      requestID = []\<rparr>]))
   \<and> NewRequestLogger e h (Some r) = NewContextLogger e h (Some (Request_Context r))
   \<and> (\<exists>l h'. NewContextLogger e h (Some c) = Inr (l, h') \<and> l \<noteq> DNil \<and> implements_Logger l)
   \<and> (\<exists>l h'. NewRequestLogger e h (Some r) = Inr (l, h') \<and> l \<noteq> DNil \<and> implements_Logger l)"
proof -
  have std: "NewAppLogger e h ''stderr'' [] =
      Inr (length h,
           h @ [\<lparr>Logger = Some \<lparr>lg_output = ''stderr'', lg_tags = []\<rparr>,
                 pool = \<lparr>items = [],
                         pool_New = Some \<lparr>lg_output = ''stderr'', lg_tags = []\<rparr>\<rparr>,
                 requestID = []\<rparr>])"
    by (simp add: NewAppLogger_def NewAppLogger_output_def logger_New_def Logger_New_def)
  have nn: "\<And>v. implements_Logger v \<Longrightarrow> v \<noteq> DNil" by auto
  have ctx: "\<And>cx. NewContextLogger e h (Some cx) =
     (if implements_Logger (cx ctxLoggerKey) then Inr (cx ctxLoggerKey, h)
      else Inr (DAppLogger (Some (length h)),
                h @ [\<lparr>Logger = Some \<lparr>lg_output = ''stderr'', lg_tags = []\<rparr>,
                      pool = \<lparr>items = [],
                              pool_New = Some \<lparr>lg_output = ''stderr'', lg_tags = []\<rparr>\<rparr>,
                      requestID = []\<rparr>]))"
    by (simp add: NewContextLogger_def std)
  have ex: "\<And>cx. \<exists>l h'. NewContextLogger e h (Some cx) = Inr (l, h') \<and> l \<noteq> DNil
              \<and> implements_Logger l"
    using nn by (simp add: ctx)
  have req: "NewRequestLogger e h (Some r) = NewContextLogger e h (Some (Request_Context r))"
    by (simp add: NewRequestLogger_def)
  from ctx [of c] ex [of c] ex [of "Request_Context r"] req show ?thesis
    by simp
qed

theorem NewContextLogger_total_witness:
  "NewContextLogger \<lparr>open_error = (\<lambda>p. Some ''read-only file system''),
                      foreign_New = (\<lambda>k r. Inr (DForeignLogger k))\<rparr> []
     (Some (\<lambda>k. if k = ctxLoggerKey then DAppLogger (Some 3) else DNil))
     = Inr (DAppLogger (Some 3), [])
   \<and> NewRequestLogger \<lparr>open_error = (\<lambda>p. Some ''read-only file system''),
                        foreign_New = (\<lambda>k r. Inr (DForeignLogger k))\<rparr> []
       (Some \<lparr>ctx = None\<rparr>)
     = Inr (DAppLogger (Some 0),
            [\<lparr>Logger = Some \<lparr>lg_output = ''stderr'', lg_tags = []\<rparr>,
              pool = \<lparr>items = [],
                      pool_New = Some \<lparr>lg_output = ''stderr'', lg_tags = []\<rparr>\<rparr>,
              requestID = []\<rparr>])"
proof -
  let ?e = "\<lparr>open_error = (\<lambda>p. Some ''read-only file system''),
             foreign_New = (\<lambda>k r. Inr (DForeignLogger k))\<rparr>"
  let ?c = "\<lambda>k. if k = ctxLoggerKey then DAppLogger (Some 3) else DNil"
  note t1 = NewContextLogger_total [where e = ?e and h = "[]" and c = ?c and r = "\<lparr>ctx = None\<rparr>"]
  note t2 = NewContextLogger_total
              [where e = ?e and h = "[]" and c = "Request_Context \<lparr>ctx = None\<rparr>"
                 and r = "\<lparr>ctx = None\<rparr>"]
  from t1 have a: "NewContextLogger ?e [] (Some ?c) = Inr (DAppLogger (Some 3), [])"
    by simp
  from t2 have b: "NewRequestLogger ?e [] (Some \<lparr>ctx = None\<rparr>)
     = Inr (DAppLogger (Some 0),
            [\<lparr>Logger = Some \<lparr>lg_output = ''stderr'', lg_tags = []\<rparr>,
              pool = \<lparr>items = [],
                      pool_New = Some \<lparr>lg_output = ''stderr'', lg_tags = []\<rparr>\<rparr>,
              requestID = []\<rparr>])"
    by (simp add: Request_Context_def context_Background_def)
  from a b show ?thesis by blast
qed

subsection \<open>The pool over the life of a program\<close>

text \<open>
  C9, as amended. For every AppLogger constructed by \<^verbatim>\<open>NewAppLogger\<close>, as long as every
  value passed to \<^verbatim>\<open>Reuse\<close> is a non-nil \<^verbatim>\<open>*AppLogger\<close> whose embedded logger is set,
  every call of \<^verbatim>\<open>New\<close> on it returns through the fast path or through the
  \<^verbatim>\<open>*AppLogger\<close> branch, never through the final conversion to \<^verbatim>\<open>Logger\<close>; it does not
  panic, and \<^verbatim>\<open>RequestID()\<close> of the handle it returns is the given id.
\<close>

theorem New_on_root_never_panics:
  assumes "reachable e a h"
  shows "\<exists>br b h'. AppLogger_New e h (Some a) rid choice = Inr (br, DAppLogger (Some b), h')
           \<and> (br = FastPath \<or> br = PoolHandle)
           \<and> AppLogger_RequestID h' (Some b) = Inr rid"
proof -
  from assms have "root_inv h a" by (rule reachable_root_inv)
  then obtain obj where d: "deref h (Some a) = Some obj" and ok: "pool_ok h obj"
    by (auto simp: root_inv_def split: option.splits)
  show ?thesis
  proof (cases "requestID obj = rid")
    case True
    with d show ?thesis
      by (simp add: AppLogger_New_def AppLogger_RequestID_def)
  next
    case False
    from New_stamps_handle [OF d False ok, of e choice]
    show ?thesis by (auto simp: AppLogger_RequestID_def deref_Some)
  qed
qed

text \<open>
  The witness follows the reuse test: the root is constructed, a handle is acquired for
  \<^verbatim>\<open>di-tseuqer-x\<close> and given back, and the next acquisition succeeds.
\<close>

theorem New_on_root_never_panics_witness:
  "reachable \<lparr>open_error = (\<lambda>p. None), foreign_New = (\<lambda>k r. Inr (DForeignLogger k))\<rparr> 0
     [\<lparr>Logger = Some \<lparr>lg_output = ''nil'', lg_tags = []\<rparr>,
       pool = \<lparr>items = [DAppLogger (Some 1)],
               pool_New = Some \<lparr>lg_output = ''nil'', lg_tags = []\<rparr>\<rparr>,
       requestID = []\<rparr>,
      \<lparr>Logger = Some \<lparr>lg_output = ''nil'', lg_tags = [''di-tseuqer-x'']\<rparr>,
       pool = \<lparr>items = [], pool_New = None\<rparr>, requestID = ''di-tseuqer-x''\<rparr>]
   \<and> (\<exists>br b h'.
         AppLogger_New \<lparr>open_error = (\<lambda>p. None), foreign_New = (\<lambda>k r. Inr (DForeignLogger k))\<rparr>
           [\<lparr>Logger = Some \<lparr>lg_output = ''nil'', lg_tags = []\<rparr>,
             pool = \<lparr>items = [DAppLogger (Some 1)],
                     pool_New = Some \<lparr>lg_output = ''nil'', lg_tags = []\<rparr>\<rparr>,
             requestID = []\<rparr>,
            \<lparr>Logger = Some \<lparr>lg_output = ''nil'', lg_tags = [''di-tseuqer-x'']\<rparr>,
             pool = \<lparr>items = [], pool_New = None\<rparr>, requestID = ''di-tseuqer-x''\<rparr>]
           (Some 0) ''x-request-id'' (Some 0)
         = Inr (br, DAppLogger (Some b), h')
       \<and> (br = FastPath \<or> br = PoolHandle)
       \<and> AppLogger_RequestID h' (Some b) = Inr ''x-request-id'')"
proof -
  let ?e = "\<lparr>open_error = (\<lambda>p. None), foreign_New = (\<lambda>k r. Inr (DForeignLogger k))\<rparr>"
  let ?lg = "\<lparr>lg_output = ''nil'', lg_tags = []\<rparr>"
  let ?h0 = "[\<lparr>Logger = Some ?lg, pool = \<lparr>items = [], pool_New = Some ?lg\<rparr>, requestID = []\<rparr>]"
  let ?hd = "\<lparr>Logger = Some \<lparr>lg_output = ''nil'', lg_tags = [''di-tseuqer-x'']\<rparr>,
       pool = \<lparr>items = [], pool_New = None\<rparr>, requestID = ''di-tseuqer-x''\<rparr>"
  let ?h1 = "[\<lparr>Logger = Some ?lg, pool = \<lparr>items = [], pool_New = Some ?lg\<rparr>, requestID = []\<rparr>,
              ?hd]"
  let ?h2 = "[\<lparr>Logger = Some ?lg,
               pool = \<lparr>items = [DAppLogger (Some 1)], pool_New = Some ?lg\<rparr>, requestID = []\<rparr>,
              ?hd]"
  have c0: "NewAppLogger ?e [] ''nil'' [] = Inr (0, ?h0)"
    by (simp add: NewAppLogger_def NewAppLogger_output_def logger_New_def Logger_New_def)
  have c1: "AppLogger_New ?e ?h0 (Some 0) ''di-tseuqer-x'' None
              = Inr (PoolHandle, DAppLogger (Some 1), ?h1)"
    by (simp add: AppLogger_New_def deref_def pool_Get_def pool_miss_def SetTags_def
        Logger_New_def Let_def)
  have l1: "live_handle ?h1 (DAppLogger (Some 1))"
    by (simp add: live_handle_def deref_def)
  have c2: "AppLogger_Reuse ?h1 (Some 0) (DAppLogger (Some 1)) = Inr ?h2"
    by (simp add: AppLogger_Reuse_def deref_def pool_Put_def)
  have r0: "reachable ?e 0 ?h0" using c0 by (rule reachable.root)
  have r1: "reachable ?e 0 ?h1" using r0 c1 by (rule reachable.new)
  have r2: "reachable ?e 0 ?h2" using r1 l1 c2 by (rule reachable.reuse)
  from r2 New_on_root_never_panics [OF r2, of "''x-request-id''" "Some 0"]
  show ?thesis by blast
qed

text \<open>
  The claim as first stated admits the nil \<^verbatim>\<open>*AppLogger\<close>, which \<^verbatim>\<open>Reuse\<close> puts into the
  pool (the interface that holds it is not nil): \<^verbatim>\<open>New\<close> takes the \<^verbatim>\<open>*AppLogger\<close> branch
  and panics on \<^verbatim>\<open>nlog.requestID = requestID\<close>.
\<close>

theorem New_on_root_never_panics_counterexample:
  "NewAppLogger \<lparr>open_error = (\<lambda>p. None), foreign_New = (\<lambda>k r. Inr (DForeignLogger k))\<rparr>
     [] ''nil'' []
   = Inr (0, [\<lparr>Logger = Some \<lparr>lg_output = ''nil'', lg_tags = []\<rparr>,
               pool = \<lparr>items = [], pool_New = Some \<lparr>lg_output = ''nil'', lg_tags = []\<rparr>\<rparr>,
               requestID = []\<rparr>])
   \<and> AppLogger_Reuse
       [\<lparr>Logger = Some \<lparr>lg_output = ''nil'', lg_tags = []\<rparr>,
         pool = \<lparr>items = [], pool_New = Some \<lparr>lg_output = ''nil'', lg_tags = []\<rparr>\<rparr>,
         requestID = []\<rparr>] (Some 0) (DAppLogger None)
     = Inr [\<lparr>Logger = Some \<lparr>lg_output = ''nil'', lg_tags = []\<rparr>,
             pool = \<lparr>items = [DAppLogger None],
                     pool_New = Some \<lparr>lg_output = ''nil'', lg_tags = []\<rparr>\<rparr>,
             requestID = []\<rparr>]
   \<and> AppLogger_New \<lparr>open_error = (\<lambda>p. None), foreign_New = (\<lambda>k r. Inr (DForeignLogger k))\<rparr>
       [\<lparr>Logger = Some \<lparr>lg_output = ''nil'', lg_tags = []\<rparr>,
         pool = \<lparr>items = [DAppLogger None],
                 pool_New = Some \<lparr>lg_output = ''nil'', lg_tags = []\<rparr>\<rparr>,
         requestID = []\<rparr>] (Some 0) ''x-request-id'' (Some 0)
     = Inl NilDereference"
  by (simp add: NewAppLogger_def NewAppLogger_output_def logger_New_def Logger_New_def
      AppLogger_Reuse_def pool_Put_def AppLogger_New_def deref_def pool_Get_def Let_def)

subsection \<open>Two handles held at once\<close>




section \<open>Properties of the hook stages\<close>

lemma runHooks_trace:
  "runHooks hs s = (r, s', ex) \<Longrightarrow>
     length ex \<le> length hs
   \<and> map fst ex = take (length ex) (map Name hs)
   \<and> s' = fold (\<lambda>hk st. snd (Apply hk st)) (take (length ex) hs) s
   \<and> (\<forall>i < length ex.
        snd (ex ! i) = fst (Apply (hs ! i) (fold (\<lambda>hk st. snd (Apply hk st)) (take i hs) s)))
   \<and> (r \<longrightarrow> length ex = length hs \<and> list_all snd ex)
   \<and> (\<not> r \<longrightarrow> ex \<noteq> [] \<and> \<not> snd (last ex) \<and> list_all snd (butlast ex))"
proof (induction hs arbitrary: s r s' ex)
  case Nil
  then show ?case by simp
next
  case (Cons hk hks)
  obtain ok s1 where ap: "Apply hk s = (ok, s1)" by (cases "Apply hk s") auto
  show ?case
  proof (cases ok)
    case False
    with ap Cons.prems have "r = False" "s' = s1" "ex = [(Name hk, False)]" by auto
    with ap False show ?thesis by simp
  next
    case True
    obtain r1 s2 ex1 where rec: "runHooks hks s1 = (r1, s2, ex1)"
      by (cases "runHooks hks s1") auto
    with ap True Cons.prems have eq: "r = r1" "s' = s2" "ex = (Name hk, True) # ex1" by auto
    note IH = Cons.IH [OF rec]
    have nth: "\<forall>i < length ex.
        snd (ex ! i) = fst (Apply ((hk # hks) ! i)
                             (fold (\<lambda>hk st. snd (Apply hk st)) (take i (hk # hks)) s))"
    proof (intro allI impI)
      fix i assume i: "i < length ex"
      show "snd (ex ! i) = fst (Apply ((hk # hks) ! i)
                                  (fold (\<lambda>hk st. snd (Apply hk st)) (take i (hk # hks)) s))"
      proof (cases i)
        case 0
        with eq ap True show ?thesis by simp
      next
        case (Suc j)
        with i eq have "j < length ex1" by simp
        with IH have "snd (ex1 ! j) =
            fst (Apply (hks ! j) (fold (\<lambda>hk st. snd (Apply hk st)) (take j hks) s1))"
          by blast
        with Suc eq ap show ?thesis by simp
      qed
    qed
    have bl: "\<not> r \<longrightarrow> ex \<noteq> [] \<and> \<not> snd (last ex) \<and> list_all snd (butlast ex)"
      using IH eq by auto
    from IH eq ap nth bl show ?thesis by simp
  qed
qed

text \<open>
  C4. For every stage and every sequence of hooks registered for it, the stage runs a
  prefix of the sequence in registration order, each hook on the state its predecessor
  left. When the stage reports false, the last hook it ran is the first that returned
  false, and no later hook ran; when it reports true, every hook ran and returned true.
  An empty sequence reports true.
\<close>

theorem runStage_short_circuit:
  assumes "runStage registry stage s = (r, s', ex)"
  shows "length ex \<le> length (registry stage)
   \<and> map fst ex = take (length ex) (map Name (registry stage))
   \<and> s' = fold (\<lambda>hk st. snd (Apply hk st)) (take (length ex) (registry stage)) s
   \<and> (\<forall>i < length ex.
        snd (ex ! i) = fst (Apply (registry stage ! i)
                             (fold (\<lambda>hk st. snd (Apply hk st)) (take i (registry stage)) s)))
   \<and> (r \<longrightarrow> length ex = length (registry stage) \<and> list_all snd ex)
   \<and> (\<not> r \<longrightarrow> ex \<noteq> [] \<and> \<not> snd (last ex) \<and> list_all snd (butlast ex))
   \<and> (registry stage = [] \<longrightarrow> r)"
proof -
  from assms have rh: "runHooks (registry stage) s = (r, s', ex)"
    by (simp add: runStage_def)
  from rh have "registry stage = [] \<longrightarrow> r" by auto
  with runHooks_trace [OF rh] show ?thesis by blast
qed

text \<open>
  The witness is the stage of the specification, \<^verbatim>\<open>[h1 -> true, h2 -> false, h3 -> true]\<close>,
  where each hook appends its name to the state: \<^verbatim>\<open>h1\<close> and \<^verbatim>\<open>h2\<close> run, \<^verbatim>\<open>h3\<close> does
  not, and the stage reports false.
\<close>

theorem runStage_short_circuit_witness:
  "runStage
     (\<lambda>stage. if stage = RequestReceived
        then [\<lparr>Name = ''h1'', Apply = (\<lambda>st. (True, st @ [''h1'']))\<rparr>,
              \<lparr>Name = ''h2'', Apply = (\<lambda>st. (False, st @ [''h2'']))\<rparr>,
              \<lparr>Name = ''h3'', Apply = (\<lambda>st. (True, st @ [''h3'']))\<rparr>]
        else [])
     RequestReceived []
   = (False, [''h1'', ''h2''], [(''h1'', True), (''h2'', False)])
   \<and> length [(''h1'', True), (''h2'', False)] \<le> (3::nat)
   \<and> \<not> snd (last [(''h1'', True), (''h2'', False)])
   \<and> list_all snd (butlast [(''h1'', True), (''h2'', False)])"
proof -
  let ?reg = "\<lambda>stage. if stage = RequestReceived
        then [\<lparr>Name = ''h1'', Apply = (\<lambda>st. (True, st @ [''h1'']))\<rparr>,
              \<lparr>Name = ''h2'', Apply = (\<lambda>st. (False, st @ [''h2'']))\<rparr>,
              \<lparr>Name = ''h3'', Apply = (\<lambda>st. (True, st @ [''h3'']))\<rparr>]
        else []"
  have run: "runStage ?reg RequestReceived []
               = (False, [''h1'', ''h2''], [(''h1'', True), (''h2'', False)])"
    by (simp add: runStage_def)
  from runStage_short_circuit [OF run] run show ?thesis
    by simp
qed

section \<open>Properties of the component generator\<close>

lemma Valid_iff:
  "Valid com \<longleftrightarrow> com = ComTypeController \<or> com = ComTypeMiddleware \<or> com = ComTypeModel"
  by (auto simp: Valid_def u_comType_def comType_u_def ComTypeController_def
      ComTypeMiddleware_def ComTypeModel_def)

lemma generate_error:
  assumes "generate ce w p template comArgs = Inr (Some err, w')"
  shows "err \<noteq> ErrComponentType \<and> err \<noteq> ErrInvalidRoot"
  using assms
  by (auto simp: generate_def split: sum.splits option.splits prod.splits)

lemma newComponent_valid_error:
  assumes "Valid com" "newComponent ce w com name args = Inr (Some err, w')"
  shows "err \<noteq> ErrComponentType"
proof (cases "getwd w")
  case (Inl msg)
  with assms show ?thesis by (auto simp: newComponent_def)
next
  case (Inr root)
  show ?thesis
  proof (cases "strings_Contains (Root com root) ''/gogo/''")
    case False
    with Inr assms show ?thesis by (auto simp: newComponent_def)
  next
    case True
    let ?args = "\<lparr>tm_Name = toCamelCase ce name, tm_Args = args\<rparr>"
    let ?g1 = "generate ce w (path_Join [Root com root, toFilename ce name])
                 (''template_'' @ ComponentType_String com) ?args"
    from Inr True assms have nc: "(case ?g1 of
         Inl pn \<Rightarrow> Inl pn
       | Inr (Some err, w1) \<Rightarrow> Inr (Some err, w1)
       | Inr (None, w1) \<Rightarrow>
           generate ce w1 (path_Join [Root com root, toFilename ce (name @ ''_test'')])
             (''template_'' @ ComponentType_String com @ ''_test'') ?args)
       = Inr (Some err, w')"
      by (simp add: newComponent_def Let_def)
    show ?thesis
    proof (cases ?g1)
      case (Inl pn)
      with nc show ?thesis by simp
    next
      case g: (Inr res)
      obtain eo w1 where res: "res = (eo, w1)" by (cases res) auto
      show ?thesis
      proof (cases eo)
        case None
        with g res nc generate_error show ?thesis by auto
      next
        case (Some err1)
        with g res nc have "err1 = err" by simp
        with g res Some generate_error show ?thesis by blast
      qed
    qed
  qed
qed

text \<open>
  C8. \<^verbatim>\<open>newComponent\<close> returns \<^verbatim>\<open>ErrComponentType\<close> exactly when the component type is
  not strictly between \<^verbatim>\<open>_comType\<close> and \<^verbatim>\<open>comType_\<close>, that is, when it is none of
  controller, middleware and model; for a valid type and a working directory whose
  component root does not contain \<^verbatim>\<open>/gogo/\<close> it returns \<^verbatim>\<open>ErrInvalidRoot\<close>. In both cases
  the error is returned, not a panic, and the files and the log are as they were.
\<close>

theorem newComponent_early_errors:
  "((\<exists>w'. newComponent ce w com name args = Inr (Some ErrComponentType, w')) \<longleftrightarrow> \<not> Valid com)
   \<and> (Valid com \<longleftrightarrow> com = ComTypeController \<or> com = ComTypeMiddleware \<or> com = ComTypeModel)
   \<and> (\<not> Valid com \<longrightarrow> newComponent ce w com name args = Inr (Some ErrComponentType, w))
   \<and> (Valid com \<and> getwd w = Inr root \<and> \<not> strings_Contains (Root com root) ''/gogo/''
        \<longrightarrow> newComponent ce w com name args = Inr (Some ErrInvalidRoot, w))"
proof -
  have a: "\<not> Valid com \<Longrightarrow> newComponent ce w com name args = Inr (Some ErrComponentType, w)"
    by (simp add: newComponent_def)
  have b: "\<And>w'. Valid com \<Longrightarrow> newComponent ce w com name args \<noteq> Inr (Some ErrComponentType, w')"
    using newComponent_valid_error by blast
  have c: "Valid com \<and> getwd w = Inr root \<and> \<not> strings_Contains (Root com root) ''/gogo/''
        \<longrightarrow> newComponent ce w com name args = Inr (Some ErrInvalidRoot, w)"
    by (simp add: newComponent_def)
  from a b c Valid_iff [of com] show ?thesis by blast
qed

lemma Root_of_slash: "Root ComTypeController ''/'' = ''gogo/app/controllers''"
  by code_simp

text \<open>
  The witness: the type \<^verbatim>\<open>comType_\<close> itself is refused, and the controller generated in
  the root directory \<^verbatim>\<open>/\<close> has the component root \<^verbatim>\<open>gogo/app/controllers\<close>, which holds
  no \<^verbatim>\<open>/gogo/\<close>.
\<close>

theorem newComponent_early_errors_witness:
  "newComponent
     \<lparr>named_ToCamelCase = (\<lambda>s. [s]), strings_Title = (\<lambda>s. s), strings_ToLower = (\<lambda>s. s),
       open_refused = (\<lambda>fs p. None), box_Execute = (\<lambda>t m. Inr ([], None)),
       fmt_Sprintf = (\<lambda>s. s)\<rparr>
     \<lparr>getwd = Inr ''/'', files = (\<lambda>p. None), stderr_log = []\<rparr>
     comType_u ''user'' []
   = Inr (Some ErrComponentType, \<lparr>getwd = Inr ''/'', files = (\<lambda>p. None), stderr_log = []\<rparr>)
   \<and> newComponent
     \<lparr>named_ToCamelCase = (\<lambda>s. [s]), strings_Title = (\<lambda>s. s), strings_ToLower = (\<lambda>s. s),
       open_refused = (\<lambda>fs p. None), box_Execute = (\<lambda>t m. Inr ([], None)),
       fmt_Sprintf = (\<lambda>s. s)\<rparr>
     \<lparr>getwd = Inr ''/'', files = (\<lambda>p. None), stderr_log = []\<rparr>
     ComTypeController ''user'' []
   = Inr (Some ErrInvalidRoot, \<lparr>getwd = Inr ''/'', files = (\<lambda>p. None), stderr_log = []\<rparr>)"
proof -
  let ?ce = "\<lparr>named_ToCamelCase = (\<lambda>s. [s]), strings_Title = (\<lambda>s. s), strings_ToLower = (\<lambda>s. s),
       open_refused = (\<lambda>fs p. None), box_Execute = (\<lambda>t m. Inr ([], None)),
       fmt_Sprintf = (\<lambda>s. s)\<rparr>"
  let ?w = "\<lparr>getwd = Inr ''/'', files = (\<lambda>p. None), stderr_log = []\<rparr>"
  have v1: "\<not> Valid comType_u" by (simp add: Valid_def comType_u_def)
  have v2: "Valid ComTypeController"
    by (simp add: Valid_def comType_u_def u_comType_def ComTypeController_def)
  have g: "getwd ?w = Inr ''/''" by simp
  have nc: "\<not> strings_Contains (Root ComTypeController ''/'') ''/gogo/''"
    by (simp add: Root_of_slash)
  from newComponent_early_errors
         [where ce = ?ce and w = ?w and com = comType_u and name = "''user''" and args = "[]"] v1
  have a: "newComponent ?ce ?w comType_u ''user'' [] = Inr (Some ErrComponentType, ?w)"
    by blast
  from newComponent_early_errors
         [where ce = ?ce and w = ?w and com = ComTypeController and name = "''user''"
            and args = "[]" and root = "''/''"] v2 g nc
  have b: "newComponent ?ce ?w ComTypeController ''user'' [] = Inr (Some ErrInvalidRoot, ?w)"
    by blast
  from a b show ?thesis by blast
qed

end
